theory Spec2Isabelle
  imports Main "HOL-Library.Multiset" "HOL-Library.Product_Lexorder" "HOL-Library.Option_ord"
begin

section \<open>Dates, times and the rule evaluator\<close>

text \<open>
  A datetime is a count of microseconds, a timedelta a difference of two such counts.
  The functions \<open>timedelta_days\<close> and \<open>timedelta_seconds\<close> are Python's
  \<^verbatim>\<open>timedelta(days=n)\<close> and \<^verbatim>\<open>timedelta(seconds=n)\<close>.
\<close>

type_synonym datetime = int
type_synonym timedelta = int

definition timedelta_days :: "int \<Rightarrow> timedelta" where
  "timedelta_days n = n * 86400000000"

definition timedelta_seconds :: "int \<Rightarrow> timedelta" where
  "timedelta_seconds n = n * 1000000"

definition timedelta_microseconds :: "int \<Rightarrow> timedelta" where
  "timedelta_microseconds n = n"

text \<open>
  The complete rule specification that \<^verbatim>\<open>_build_complete_rrule\<close> writes as text:
  \<^verbatim>\<open>DTSTART:s\nRDATE:s\<close> for a generator without a recurrence rule, and
  \<^verbatim>\<open>DTSTART:s\nRRULE:rule;UNTIL=u\<close> for a repeating one. The datetimes are
  kept as the values handed to \<^verbatim>\<open>format_naive_ical_dt\<close>.
\<close>

datatype rrule_spec =
    RDATE datetime datetime
  | RRULE_UNTIL datetime string datetime

text \<open>
  What the module takes from outside \<^verbatim>\<open>models.py\<close>:
  \<^verbatim>\<open>timeutils.coerce_naive\<close>, \<^verbatim>\<open>timeutils.zero_datetime\<close>, the clock
  \<^verbatim>\<open>djtz.now()\<close>, the setting \<^verbatim>\<open>appsettings.REPEAT_LIMIT\<close>, and dateutil's
  \<^verbatim>\<open>rrulestr(spec, forceset=True).between(after, before)\<close>. They are parameters
  of the model: every theorem below holds for all of them.
\<close>

record env =
  coerce_naive :: "datetime \<Rightarrow> datetime"
  zero_datetime :: "datetime \<Rightarrow> datetime"
  now :: datetime
  REPEAT_LIMIT :: timedelta
  rruleset_between :: "rrule_spec \<Rightarrow> datetime \<Rightarrow> datetime \<Rightarrow> datetime list"

section \<open>EventRepeatsGenerator\<close>

record generator =
  gen_pk :: nat
  gen_event :: nat
  recurrence_rule :: "string option"
  gen_start :: datetime
  gen_end :: datetime
  gen_is_all_day :: bool
  repeat_end :: "datetime option"

datatype error = GeneratorException

text \<open>\<^verbatim>\<open>not self.recurrence_rule\<close>: the rule is \<^verbatim>\<open>None\<close> or the empty string.\<close>

definition no_recurrence_rule :: "generator \<Rightarrow> bool" where
  "no_recurrence_rule g = (case recurrence_rule g of None \<Rightarrow> True | Some r \<Rightarrow> r = [])"

text \<open>The property \<^verbatim>\<open>duration\<close>: \<^verbatim>\<open>self.end - self.start\<close>.\<close>

definition duration :: "generator \<Rightarrow> timedelta" where
  "duration g = gen_end g - gen_start g"

text \<open>
  \<^verbatim>\<open>_build_complete_rrule(start_dt=None, until=None)\<close>. A datetime is always
  truthy, so \<^verbatim>\<open>self.repeat_end or ...\<close> tests for \<^verbatim>\<open>None\<close>.
\<close>

definition build_complete_rrule ::
  "env \<Rightarrow> generator \<Rightarrow> datetime option \<Rightarrow> datetime option \<Rightarrow> rrule_spec" where
  "build_complete_rrule env g start_dt until =
     (let start_dt = (case start_dt of None \<Rightarrow> gen_start g | Some s \<Rightarrow> s);
          until = (case until of
                     None \<Rightarrow> (case repeat_end g of
                                Some r \<Rightarrow> r
                              | None \<Rightarrow> now env + REPEAT_LIMIT env)
                   | Some u \<Rightarrow> u)
      in if no_recurrence_rule g then RDATE start_dt start_dt
         else RRULE_UNTIL start_dt (the (recurrence_rule g))
                (if gen_is_all_day g
                 then until + (timedelta_days 1 + timedelta_microseconds (- 1))
                 else until - timedelta_microseconds 1))"

definition get_rruleset :: "env \<Rightarrow> generator \<Rightarrow> datetime option \<Rightarrow> rrule_spec" where
  "get_rruleset env g until = build_complete_rrule env g None until"

text \<open>
  The value of the local variable \<^verbatim>\<open>until\<close> of \<^verbatim>\<open>generate\<close> after its
  \<^verbatim>\<open>if until is None\<close> block: the upper bound the method works with.
\<close>

definition generate_until :: "env \<Rightarrow> generator \<Rightarrow> datetime option \<Rightarrow> datetime" where
  "generate_until env g until =
     (case until of
        None \<Rightarrow>
          (let u = (case repeat_end g of
                      Some r \<Rightarrow> r
                    | None \<Rightarrow> now env + REPEAT_LIMIT env)
           in if gen_is_all_day g then u + timedelta_days 1 else u)
      | Some u \<Rightarrow> u)"

text \<open>
  \<^verbatim>\<open>generate(until=None)\<close>. \<^verbatim>\<open>self.duration or timedelta(days=1)\<close> takes one
  day when the duration is the zero timedelta, which is falsy.
\<close>

definition occurrence_duration :: "generator \<Rightarrow> timedelta" where
  "occurrence_duration g = (if duration g \<noteq> 0 then duration g else timedelta_days 1)"

definition generate :: "env \<Rightarrow> generator \<Rightarrow> datetime option \<Rightarrow> (datetime \<times> datetime) list" where
  "generate env g until =
     (let start_dt = gen_start g - timedelta_seconds 1;
          until = generate_until env g until;
          start_dt = coerce_naive env start_dt;
          until = coerce_naive env until;
          rruleset = get_rruleset env g (Some until)
      in map (\<lambda>start. (start, start + occurrence_duration g))
           (rruleset_between env rruleset start_dt until))"

text \<open>
  \<^verbatim>\<open>AbstractEventRepeatsGenerator.save\<close>: the checks, then the all-day
  normalisation. The result is the generator as it is stored. A naive datetime has hour,
  minute, second and microsecond zero exactly when its count is a multiple of one day.
\<close>

definition generator_save :: "env \<Rightarrow> generator \<Rightarrow> error + generator" where
  "generator_save env g =
     (if gen_end g < gen_start g then Inl GeneratorException
      else if repeat_end g \<noteq> None \<and> no_recurrence_rule g then Inl GeneratorException
      else if repeat_end g \<noteq> None \<and> the (repeat_end g) < gen_start g
        then Inl GeneratorException
      else if gen_is_all_day g \<and> coerce_naive env (gen_start g) mod timedelta_days 1 \<noteq> 0
        then Inl GeneratorException
      else if gen_is_all_day g
        then Inr (g\<lparr>gen_start := zero_datetime env (gen_start g),
                    gen_end := zero_datetime env (gen_end g)
                               + (timedelta_days 1 + timedelta_microseconds (- 1))\<rparr>)
      else Inr g)"

section \<open>Occurrences and the tables\<close>

text \<open>
  An occurrence, as a row and as the object loaded from it. \<open>occ_pk\<close> is
  \<^verbatim>\<open>None\<close> on an object that was never saved. The fields \<^verbatim>\<open>external_ref\<close>
  and \<^verbatim>\<open>status\<close>, which the engine never reads or writes, are left out.
\<close>

record occurrence =
  occ_pk :: "nat option"
  occ_event :: nat
  occ_generator :: "nat option"
  occ_start :: datetime
  occ_end :: datetime
  occ_is_all_day :: bool
  is_protected_from_regeneration :: bool
  is_cancelled :: bool
  is_hidden :: bool
  cancel_reason :: "string option"
  original_start :: "datetime option"
  original_end :: "datetime option"

record event_row =
  row_pk :: nat
  row_title :: string
  row_derived_from :: "nat option"

text \<open>The database: the three tables in insertion order, and their primary-key sequences.\<close>

record db =
  events :: "event_row list"
  repeat_generators :: "generator list"
  occurrences :: "occurrence list"
  next_event_pk :: nat
  next_generator_pk :: nat
  next_occurrence_pk :: nat

text \<open>
  An event object in memory. \<open>visible_part_of\<close> is the object that
  \<^verbatim>\<open>self.part_of.get_visible()\<close> answers (\<^verbatim>\<open>None\<close> when \<^verbatim>\<open>part_of_id\<close> is
  unset or nothing is visible): \<^verbatim>\<open>get_visible\<close> belongs to the publishing
  application, so the object it answers is part of the value. The chain of parents of a
  value is finite; in Python a chain that came back to the event would make
  \<^verbatim>\<open>occurrence_list\<close> recurse without end. \<open>end_repeat\<close> is the
  attribute that \<^verbatim>\<open>make_variation\<close> assigns; it is no model field.
  \<open>memo_own_occurrences\<close> and \<open>memo_occurrence_list\<close> are the slots of the two
  \<^verbatim>\<open>cached_property\<close> values in the instance dictionary.
\<close>

datatype event = Event
  (pk: nat)
  (title: string)
  (derived_from: "nat option")
  (visible_part_of: "event option")
  (end_repeat: "datetime option")
  (memo_own_occurrences: "occurrence list option")
  (memo_occurrence_list: "occurrence list option")

fun set_memo_own_occurrences :: "event \<Rightarrow> occurrence list option \<Rightarrow> event" where
  "set_memo_own_occurrences (Event p t d v r mo ml) x = Event p t d v r x ml"

fun set_memo_occurrence_list :: "event \<Rightarrow> occurrence list option \<Rightarrow> event" where
  "set_memo_occurrence_list (Event p t d v r mo ml) x = Event p t d v r mo x"

fun set_visible_part_of :: "event \<Rightarrow> event option \<Rightarrow> event" where
  "set_visible_part_of (Event p t d v r mo ml) x = Event p t d x r mo ml"

fun set_end_repeat :: "event \<Rightarrow> datetime option \<Rightarrow> event" where
  "set_end_repeat (Event p t d v r mo ml) x = Event p t d v x mo ml"

text \<open>
  \<^verbatim>\<open>invalidate_caches\<close> deletes the memoised values of the event. The parent object
  stays the one that \<^verbatim>\<open>self.part_of\<close> holds.
\<close>

definition invalidate_caches :: "event \<Rightarrow> event" where
  "invalidate_caches e = set_memo_occurrence_list (set_memo_own_occurrences e None) None"

text \<open>
  \<^verbatim>\<open>self.occurrences.all()\<close> with the ordering of the model's \<^verbatim>\<open>Meta\<close>:
  \<^verbatim>\<open>['start', '-is_all_day', 'event', 'pk']\<close>; and
  \<^verbatim>\<open>self.repeat_generators.all()\<close>, ordered by \<^verbatim>\<open>pk\<close>.
\<close>

definition occurrence_ordering :: "occurrence \<Rightarrow> datetime \<times> nat \<times> nat \<times> nat option" where
  "occurrence_ordering x =
     (occ_start x, (if occ_is_all_day x then 0 else 1), occ_event x, occ_pk x)"

definition occurrences_all :: "db \<Rightarrow> nat \<Rightarrow> occurrence list" where
  "occurrences_all d p =
     sort_key occurrence_ordering (filter (\<lambda>x. occ_event x = p) (occurrences d))"

definition repeat_generators_all :: "db \<Rightarrow> nat \<Rightarrow> generator list" where
  "repeat_generators_all d p =
     sort_key gen_pk (filter (\<lambda>g. gen_event g = p) (repeat_generators d))"

text \<open>The cached property \<^verbatim>\<open>own_occurrences\<close>: the value and the object with its slot filled.\<close>

definition own_occurrences :: "db \<Rightarrow> event \<Rightarrow> occurrence list \<times> event" where
  "own_occurrences d e =
     (case memo_own_occurrences e of
        Some l \<Rightarrow> (l, e)
      | None \<Rightarrow> (let l = occurrences_all d (pk e) in (l, set_memo_own_occurrences e (Some l))))"

text \<open>
  The cached property \<^verbatim>\<open>occurrence_list\<close>: the memoised value when there is one;
  otherwise the own occurrences when there are any, otherwise the list of
  \<open>visible_part_of\<close>, otherwise the empty list. Every property read on the way fills its
  slot.
\<close>

fun occurrence_list :: "db \<Rightarrow> event \<Rightarrow> occurrence list \<times> event" where
  "occurrence_list d (Event p t df v r mo ml) =
     (case ml of
        Some l \<Rightarrow> (l, Event p t df v r mo ml)
      | None \<Rightarrow>
          (let (ow, self) = own_occurrences d (Event p t df v r mo None)
           in if ow \<noteq> [] then (ow, set_memo_occurrence_list self (Some ow))
              else (case v of
                      Some parent \<Rightarrow>
                        (let (l, parent') = occurrence_list d parent
                         in (l, set_memo_occurrence_list
                                  (set_visible_part_of self (Some parent')) (Some l)))
                    | None \<Rightarrow> ([], set_memo_occurrence_list self (Some [])))))"

section \<open>Saving occurrences\<close>

text \<open>\<^verbatim>\<open>if self.cancel_reason\<close>: the reason is neither \<^verbatim>\<open>None\<close> nor empty.\<close>

definition has_cancel_reason :: "occurrence \<Rightarrow> bool" where
  "has_cancel_reason x = (case cancel_reason x of None \<Rightarrow> False | Some r \<Rightarrow> r \<noteq> [])"

text \<open>
  The part of \<^verbatim>\<open>AbstractOccurrence.save\<close> before the call of the inherited
  \<^verbatim>\<open>save\<close>. The argument \<open>flag\<close> is
  \<^verbatim>\<open>getattr(self, '_flag_user_modification', False)\<close>, an attribute of the object
  that is not stored.
\<close>

definition occurrence_pre_save :: "env \<Rightarrow> bool \<Rightarrow> occurrence \<Rightarrow> occurrence" where
  "occurrence_pre_save env flag x =
     (let x = (if flag
               then x\<lparr>is_protected_from_regeneration := True,
                      is_cancelled := has_cancel_reason x\<rparr>
               else x);
          x = (if occ_is_all_day x
               then x\<lparr>occ_start := zero_datetime env (occ_start x),
                      occ_end := zero_datetime env (occ_end x)\<rparr>
               else x);
          x = (if original_start x = None then x\<lparr>original_start := Some (occ_start x)\<rparr> else x);
          x = (if original_end x = None then x\<lparr>original_end := Some (occ_end x)\<rparr> else x)
      in x)"

text \<open>
  The inherited \<^verbatim>\<open>save\<close>: an object without a primary key is inserted under the
  next key of the sequence; an object with one replaces the row of that key, and is
  inserted when there is no such row.
\<close>

definition occurrence_write :: "occurrence \<Rightarrow> db \<Rightarrow> occurrence \<times> db" where
  "occurrence_write x d =
     (case occ_pk x of
        None \<Rightarrow>
          (let x' = x\<lparr>occ_pk := Some (next_occurrence_pk d)\<rparr>
           in (x', d\<lparr>occurrences := occurrences d @ [x'],
                     next_occurrence_pk := Suc (next_occurrence_pk d)\<rparr>))
      | Some k \<Rightarrow>
          (if Some k \<in> occ_pk ` set (occurrences d)
           then (x, d\<lparr>occurrences :=
                        map (\<lambda>r. if occ_pk r = Some k then x else r) (occurrences d)\<rparr>)
           else (x, d\<lparr>occurrences := occurrences d @ [x]\<rparr>)))"

definition occurrence_save :: "env \<Rightarrow> bool \<Rightarrow> occurrence \<Rightarrow> db \<Rightarrow> occurrence \<times> db" where
  "occurrence_save env flag x d = occurrence_write (occurrence_pre_save env flag x) d"

section \<open>Reconciliation\<close>

text \<open>\<^verbatim>\<open>o.original_start or o.start\<close> and \<^verbatim>\<open>o.original_end or o.end\<close>.\<close>

definition identity_start :: "occurrence \<Rightarrow> datetime" where
  "identity_start x = (case original_start x of Some s \<Rightarrow> s | None \<Rightarrow> occ_start x)"

definition identity_end :: "occurrence \<Rightarrow> datetime" where
  "identity_end x = (case original_end x of Some s \<Rightarrow> s | None \<Rightarrow> occ_end x)"

definition get_occurrence_times_for_event ::
  "env \<Rightarrow> db \<Rightarrow> event \<Rightarrow> (datetime set \<times> datetime set) \<times> event" where
  "get_occurrence_times_for_event env d e =
     (let (l, e') = occurrence_list d e
      in ((set (map (\<lambda>x. coerce_naive env (identity_start x)) l),
           set (map (\<lambda>x. coerce_naive env (identity_end x)) l)), e'))"

text \<open>
  \<^verbatim>\<open>missing_occurrence_data\<close>, run to its end: the tuples it yields, in order, and
  the event object after the final \<^verbatim>\<open>invalidate_caches\<close>. The identity sets are
  read once, before the first tuple; nothing the consumer does between two tuples is read
  again.
\<close>

definition missing_occurrence_data ::
  "env \<Rightarrow> db \<Rightarrow> event \<Rightarrow> datetime option
     \<Rightarrow> (datetime \<times> datetime \<times> generator) list \<times> event" where
  "missing_occurrence_data env d e until =
     (let ((existing_starts, existing_ends), e') = get_occurrence_times_for_event env d e
      in (concat (map (\<lambda>g. map (\<lambda>(start_dt, end_dt). (start_dt, end_dt, g))
                             (filter (\<lambda>(start_dt, end_dt).
                                        \<not> (start_dt \<in> existing_starts \<or> end_dt \<in> existing_ends))
                                (generate env g until)))
                    (repeat_generators_all d (pk e))),
          invalidate_caches e'))"

text \<open>
  The object that \<^verbatim>\<open>extend_occurrences\<close> hands to
  \<^verbatim>\<open>Occurrence.objects.create\<close>: the keyword arguments, and the defaults of the
  other fields.
\<close>

definition generated_occurrence ::
  "nat \<Rightarrow> datetime \<times> datetime \<times> generator \<Rightarrow> occurrence" where
  "generated_occurrence p = (\<lambda>(start_dt, end_dt, g).
     \<lparr>occ_pk = None, occ_event = p, occ_generator = Some (gen_pk g),
      occ_start = start_dt, occ_end = end_dt, occ_is_all_day = gen_is_all_day g,
      is_protected_from_regeneration = False, is_cancelled = False, is_hidden = False,
      cancel_reason = None,
      original_start = Some start_dt, original_end = Some end_dt\<rparr>)"

definition occurrences_create :: "env \<Rightarrow> occurrence \<Rightarrow> db \<Rightarrow> db" where
  "occurrences_create env x d = snd (occurrence_save env False x d)"

text \<open>\<^verbatim>\<open>extend_occurrences\<close>: the count, the event object, the database.\<close>

definition extend_occurrences ::
  "env \<Rightarrow> db \<Rightarrow> event \<Rightarrow> datetime option \<Rightarrow> nat \<times> event \<times> db" where
  "extend_occurrences env d e until =
     (let (missing, e') = missing_occurrence_data env d e until
      in (length missing, invalidate_caches e',
          fold (\<lambda>t. occurrences_create env (generated_occurrence (pk e) t)) missing d))"

text \<open>
  Modelled from the spec: the manager method \<^verbatim>\<open>regeneratable()\<close> of
  \<^verbatim>\<open>icekit_events.managers\<close> is not in the source; the spec classifies an occurrence
  as regeneratable when it is generated and unprotected.
\<close>

definition regeneratable :: "occurrence \<Rightarrow> bool" where
  "regeneratable x = (occ_generator x \<noteq> None \<and> \<not> is_protected_from_regeneration x)"

definition delete_regeneratable :: "db \<Rightarrow> nat \<Rightarrow> db" where
  "delete_regeneratable d p =
     d\<lparr>occurrences := filter (\<lambda>x. \<not> (occ_event x = p \<and> regeneratable x)) (occurrences d)\<rparr>"

definition regenerate_occurrences ::
  "env \<Rightarrow> db \<Rightarrow> event \<Rightarrow> datetime option \<Rightarrow> event \<times> db" where
  "regenerate_occurrences env d e until =
     snd (extend_occurrences env (delete_regeneratable d (pk e)) e until)"

section \<open>Cancellation\<close>

text \<open>
  \<^verbatim>\<open>occurrence not in self.occurrence_list\<close>: model instances are equal when their
  primary keys are; an unsaved instance equals only itself, and no loaded list holds it.
\<close>

definition occurrence_in :: "occurrence \<Rightarrow> occurrence list \<Rightarrow> bool" where
  "occurrence_in x l =
     (case occ_pk x of None \<Rightarrow> False | Some k \<Rightarrow> Some k \<in> occ_pk ` set l)"

text \<open>
  \<^verbatim>\<open>cancel_occurrence\<close>: the occurrence object, the event object and the database
  after the call. \<open>flag\<close> is the \<^verbatim>\<open>_flag_user_modification\<close> attribute of the
  occurrence object.
\<close>

definition cancel_occurrence ::
  "env \<Rightarrow> db \<Rightarrow> event \<Rightarrow> occurrence \<Rightarrow> bool \<Rightarrow> bool \<Rightarrow> string option
     \<Rightarrow> occurrence \<times> event \<times> db" where
  "cancel_occurrence env d e x flag hide_cancelled_occurrence reason =
     (let (l, e') = occurrence_list d e
      in if \<not> occurrence_in x l then (x, e', d)
         else (let x = x\<lparr>is_protected_from_regeneration := True,
                        is_cancelled := True,
                        is_hidden := hide_cancelled_occurrence,
                        cancel_reason := reason\<rparr>;
                   (x', d') = occurrence_save env flag x d
               in (x', invalidate_caches e', d')))"

section \<open>Cloning a timeline and making a variation\<close>

text \<open>
  The inherited \<^verbatim>\<open>save\<close> of a generator whose \<^verbatim>\<open>pk\<close> was set to
  \<^verbatim>\<open>None\<close>: an insertion under the next key.
\<close>

definition generator_insert :: "generator \<Rightarrow> db \<Rightarrow> db" where
  "generator_insert g d =
     d\<lparr>repeat_generators := repeat_generators d @ [g\<lparr>gen_pk := next_generator_pk d\<rparr>],
       next_generator_pk := Suc (next_generator_pk d)\<rparr>"

text \<open>
  The receiver \<^verbatim>\<open>regenerate_event_occurrences\<close> of the \<^verbatim>\<open>post_save\<close> signal of
  a generator, for a generator whose event object is \<open>e\<close>.
\<close>

definition regenerate_event_occurrences :: "env \<Rightarrow> db \<Rightarrow> event \<Rightarrow> event \<times> db" where
  "regenerate_event_occurrences env d e = regenerate_occurrences env d e None"

text \<open>
  The second loop of \<^verbatim>\<open>clone_event_relationships\<close>: each generator is given to the
  destination and saved, which validates it, inserts it and fires the signal.
\<close>

fun clone_generators :: "env \<Rightarrow> generator list \<Rightarrow> event \<Rightarrow> db \<Rightarrow> error + event \<times> db" where
  "clone_generators env [] dst_obj d = Inr (dst_obj, d)"
| "clone_generators env (g # gs) dst_obj d =
     (case generator_save env (g\<lparr>gen_event := pk dst_obj\<rparr>) of
        Inl err \<Rightarrow> Inl err
      | Inr g' \<Rightarrow>
          (let (dst_obj', d') =
                 regenerate_event_occurrences env (generator_insert g' d) dst_obj
           in clone_generators env gs dst_obj' d'))"

definition clone_event_relationships ::
  "env \<Rightarrow> db \<Rightarrow> event \<Rightarrow> event \<Rightarrow> error + event \<times> db" where
  "clone_event_relationships env d self dst_obj =
     (let d1 = fold (\<lambda>x. occurrences_create env (x\<lparr>occ_pk := None, occ_event := pk dst_obj\<rparr>))
                 (filter (\<lambda>x. occ_generator x = None \<or> is_protected_from_regeneration x)
                    (occurrences_all d (pk self)))
                 d
      in clone_generators env (repeat_generators_all d1 (pk self)) dst_obj d1)"

text \<open>
  The \<^verbatim>\<open>save\<close> of an event: its row is written (inserted when the table has none
  of that key).
\<close>

definition event_save :: "event \<Rightarrow> db \<Rightarrow> db" where
  "event_save e d =
     (let row = \<lparr>row_pk = pk e, row_title = title e, row_derived_from = derived_from e\<rparr>
      in if pk e \<in> row_pk ` set (events d)
         then d\<lparr>events := map (\<lambda>r. if row_pk r = pk e then row else r) (events d)\<rparr>
         else d\<lparr>events := events d @ [row]\<rparr>)"

text \<open>
  \<^verbatim>\<open>make_variation\<close>, inside \<^verbatim>\<open>transaction.atomic\<close>: an exception leaves the
  database as it was, so the error carries no state. The result is the variation event,
  the event itself and the database. The only field of \<open>occurrence\<close> that is read is its
  start.
\<close>

definition make_variation ::
  "env \<Rightarrow> db \<Rightarrow> event \<Rightarrow> occurrence \<Rightarrow> error + event \<times> event \<times> db" where
  "make_variation env d self occurrence =
     (let variation_event = Event (next_event_pk d) (title self) (Some (pk self))
                              None None None None;
          d0 = event_save variation_event (d\<lparr>next_event_pk := Suc (next_event_pk d)\<rparr>)
      in case clone_event_relationships env d0 self variation_event of
           Inl err \<Rightarrow> Inl err
         | Inr (variation_event', d1) \<Rightarrow>
             (let self' = set_end_repeat self (Some (occ_start occurrence));
                  d2 = d1\<lparr>occurrences :=
                            filter (\<lambda>x. \<not> (occ_event x = pk self
                                           \<and> occ_start occurrence \<le> occ_start x))
                              (occurrences d1)\<rparr>
              in Inr (variation_event', self', event_save self' d2)))"

section \<open>A reference environment for running examples\<close>

text \<open>
  An evaluator for the rule \<^verbatim>\<open>FREQ=DAILY\<close> and for single dates, with \<open>between\<close>
  exclusive at both ends and \<open>UNTIL\<close> inclusive, as dateutil has them; datetimes that
  are naive already, so that \<open>coerce_naive\<close> changes nothing; \<open>zero_datetime\<close> as the
  start of the day.
\<close>

definition daily_between :: "rrule_spec \<Rightarrow> datetime \<Rightarrow> datetime \<Rightarrow> datetime list" where
  "daily_between spec after_dt before_dt =
     filter (\<lambda>t. after_dt < t \<and> t < before_dt)
       (case spec of
          RDATE s r \<Rightarrow> [r]
        | RRULE_UNTIL s rule u \<Rightarrow>
            (if rule = ''FREQ=DAILY''
             then map (\<lambda>k. s + timedelta_days (int k))
                    [0..<nat ((u - s) div timedelta_days 1 + 1)]
             else []))"

definition example_env :: env where
  "example_env =
     \<lparr>coerce_naive = (\<lambda>t. t),
      zero_datetime = (\<lambda>t. t - t mod timedelta_days 1),
      now = 0,
      REPEAT_LIMIT = timedelta_days 91,
      rruleset_between = daily_between\<rparr>"

section \<open>Example data\<close>

text \<open>
  An event ``Show'' (key 1) with a daily generator of one-hour occurrences that starts at
  day 0 and has its \<open>repeat_end\<close> at day 3, so that it stands for the days 0, 1 and 2.
  The table holds the generated occurrence of day 0 and the occurrence of day 1, which a
  user has moved by half an hour (it is protected and keeps its original times); the
  occurrence of day 2 is missing. An event ``Workshop'' (key 2) is part of the show; it
  has a generator of the same rule and no occurrences of its own.
\<close>

definition daily_generator :: generator where
  "daily_generator =
     \<lparr>gen_pk = 1, gen_event = 1, recurrence_rule = Some ''FREQ=DAILY'',
      gen_start = 0, gen_end = 3600000000, gen_is_all_day = False,
      repeat_end = Some (timedelta_days 3)\<rparr>"

definition workshop_generator :: generator where
  "workshop_generator =
     \<lparr>gen_pk = 2, gen_event = 2, recurrence_rule = Some ''FREQ=DAILY'',
      gen_start = 0, gen_end = 3600000000, gen_is_all_day = False,
      repeat_end = Some (timedelta_days 3)\<rparr>"

definition first_occurrence :: occurrence where
  "first_occurrence =
     \<lparr>occ_pk = Some 1, occ_event = 1, occ_generator = Some 1,
      occ_start = 0, occ_end = 3600000000, occ_is_all_day = False,
      is_protected_from_regeneration = False, is_cancelled = False, is_hidden = False,
      cancel_reason = None,
      original_start = Some 0, original_end = Some 3600000000\<rparr>"

definition shifted_occurrence :: occurrence where
  "shifted_occurrence =
     \<lparr>occ_pk = Some 2, occ_event = 1, occ_generator = Some 1,
      occ_start = 88200000000, occ_end = 91800000000, occ_is_all_day = False,
      is_protected_from_regeneration = True, is_cancelled = False, is_hidden = False,
      cancel_reason = None,
      original_start = Some 86400000000, original_end = Some 90000000000\<rparr>"

definition example_db :: db where
  "example_db =
     \<lparr>events = [\<lparr>row_pk = 1, row_title = ''Show'', row_derived_from = None\<rparr>,
                \<lparr>row_pk = 2, row_title = ''Workshop'', row_derived_from = None\<rparr>],
      repeat_generators = [daily_generator, workshop_generator],
      occurrences = [first_occurrence, shifted_occurrence],
      next_event_pk = 3, next_generator_pk = 3, next_occurrence_pk = 3\<rparr>"

text \<open>The two event objects as they are loaded: nothing is memoised.\<close>

definition show_event :: event where
  "show_event = Event 1 ''Show'' None None None None None"


text \<open>
  The show after a read of \<^verbatim>\<open>occurrence_list\<close> (as \<^verbatim>\<open>get_occurrences_range\<close>
  does one): both properties are memoised.
\<close>

definition show_event_read :: event where
  "show_event_read = snd (occurrence_list example_db show_event)"


text \<open>A generator of a single instant: no rule, start and end equal.\<close>

definition instant_generator :: generator where
  "instant_generator =
     \<lparr>gen_pk = 3, gen_event = 1, recurrence_rule = None,
      gen_start = 0, gen_end = 0, gen_is_all_day = False,
      repeat_end = None\<rparr>"

section \<open>The upper bound and the duration of a generator\<close>

lemma generate_until_supplied: "generate_until env g (Some u) = u"
  by (simp add: generate_until_def)

lemma generate_until_default:
  "generate_until env g None =
     (case repeat_end g of Some r \<Rightarrow> r | None \<Rightarrow> now env + REPEAT_LIMIT env)
     + (if gen_is_all_day g then timedelta_days 1 else 0)"
  by (simp add: generate_until_def Let_def)

text \<open>
  C5. The claim gives \<open>repeat_end\<close> precedence over an \<open>until\<close> that the caller
  supplies. In \<^verbatim>\<open>generate\<close> the test \<^verbatim>\<open>if until is None\<close> comes first, so a
  supplied \<open>until\<close> is the bound and \<open>repeat_end\<close> is not read: the daily generator
  whose \<open>repeat_end\<close> is day 3, asked with \<open>until\<close> at day 5, works with the bound
  day 5 and yields the occurrences of days 3 and 4 as well.
\<close>

theorem generate_supplied_until_overrides_repeat_end:
  "repeat_end daily_generator = Some (timedelta_days 3)
   \<and> generate_until example_env daily_generator (Some (timedelta_days 5)) = timedelta_days 5
   \<and> generate example_env daily_generator None =
       [(0, 3600000000), (86400000000, 90000000000), (172800000000, 176400000000)]
   \<and> generate example_env daily_generator (Some (timedelta_days 5)) =
       [(0, 3600000000), (86400000000, 90000000000), (172800000000, 176400000000),
        (259200000000, 262800000000), (345600000000, 349200000000)]"
  by code_simp

text \<open>
  C6, as stated: every pair that \<^verbatim>\<open>generate\<close> yields for a saved generator has its
  end at the start plus \<open>end - start\<close>, also when that duration is zero. The generator
  of a single instant passes \<^verbatim>\<open>save\<close> unchanged, has duration zero, and yields the
  pair of day 0 and day 1, which is one day long.
\<close>

theorem generate_zero_duration_counterexample:
  "generator_save example_env instant_generator = Inr instant_generator
   \<and> duration instant_generator = 0
   \<and> generate example_env instant_generator None = [(0, 86400000000)]
   \<and> (86400000000 :: int) \<noteq> 0 + duration instant_generator"
  by code_simp

text \<open>
  C6, amended: every pair that \<^verbatim>\<open>generate\<close> yields, for any generator and any
  \<open>until\<close>, has its end at the start plus the generator's duration \<open>end - start\<close>
  when that duration is not zero, and at the start plus one day when it is zero.
\<close>

theorem generate_end_is_start_plus_duration:
  "\<forall>(s, e) \<in> set (generate env g until).
     e = s + (if duration g = 0 then timedelta_days 1 else duration g)"
  by (auto simp: generate_def occurrence_duration_def Let_def)

theorem generate_end_is_start_plus_duration_witness:
  "(86400000000, 90000000000) \<in> set (generate example_env daily_generator None)
   \<and> duration daily_generator \<noteq> 0
   \<and> (90000000000 :: int) = 86400000000 + duration daily_generator"
proof -
  have g: "generate example_env daily_generator None =
             [(0, 3600000000), (86400000000, 90000000000), (172800000000, 176400000000)]"
    by code_simp
  have d: "duration daily_generator \<noteq> 0"
    by code_simp
  have m: "(86400000000, 90000000000) \<in> set (generate example_env daily_generator None)"
    unfolding g by simp
  from generate_end_is_start_plus_duration [of example_env daily_generator None] m
  have k: "(90000000000 :: int) =
          86400000000 + (if duration daily_generator = 0 then timedelta_days 1
                         else duration daily_generator)"
    by blast
  have "(90000000000 :: int) = 86400000000 + duration daily_generator"
    using k d by (simp only: if_False)
  with m d show ?thesis by blast
qed

section \<open>The memoised views of an event\<close>

lemma pk_set_memo_own [simp]: "pk (set_memo_own_occurrences e x) = pk e"
  by (cases e) simp

lemma pk_set_memo_list [simp]: "pk (set_memo_occurrence_list e x) = pk e"
  by (cases e) simp

lemma pk_set_visible_part_of [simp]: "pk (set_visible_part_of e x) = pk e"
  by (cases e) simp

lemma pk_set_end_repeat [simp]: "pk (set_end_repeat e x) = pk e"
  by (cases e) simp

lemma pk_invalidate_caches [simp]: "pk (invalidate_caches e) = pk e"
  by (simp add: invalidate_caches_def)

lemma memo_invalidate_caches [simp]:
  "memo_own_occurrences (invalidate_caches e) = None"
  "memo_occurrence_list (invalidate_caches e) = None"
  by (cases e; simp add: invalidate_caches_def)+

lemma pk_own_occurrences [simp]: "pk (snd (own_occurrences d e)) = pk e"
  by (cases "memo_own_occurrences e") (simp_all add: own_occurrences_def Let_def)

lemma pk_own_occurrences_eq: "own_occurrences d e = (l, e') \<Longrightarrow> pk e' = pk e"
  using pk_own_occurrences [of d e] by simp

lemma pk_occurrence_list [simp]: "pk (snd (occurrence_list d e)) = pk e"
  by (induction d e rule: occurrence_list.induct)
     (auto simp: Let_def split: option.splits prod.splits dest: pk_own_occurrences_eq)

lemma occurrence_list_memoised:
  "memo_occurrence_list e = Some l \<Longrightarrow> occurrence_list d e = (l, e)"
  by (cases e) simp



lemma occurrence_list_no_parent:
  "memo_occurrence_list e = None \<Longrightarrow> fst (own_occurrences d e) = [] \<Longrightarrow>
   visible_part_of e = None \<Longrightarrow>
   fst (occurrence_list d e) = []"
  by (cases e) (auto simp: Let_def own_occurrences_def split: option.splits prod.splits)

lemma memo_after_occurrence_list:
  "memo_occurrence_list (snd (occurrence_list d e)) = Some (fst (occurrence_list d e))"
  by (cases e) (auto simp: Let_def own_occurrences_def split: option.splits prod.splits)

lemma set_occurrences_all [simp]:
  "set (occurrences_all d p) = {x \<in> set (occurrences d). occ_event x = p}"
  by (auto simp: occurrences_all_def)


section \<open>The identity set and the missing occurrences\<close>

lemma identity_sets_of_occurrence_list:
  "fst (get_occurrence_times_for_event env d e) =
     ((\<lambda>x. coerce_naive env (identity_start x)) ` set (fst (occurrence_list d e)),
      (\<lambda>x. coerce_naive env (identity_end x)) ` set (fst (occurrence_list d e)))"
  by (simp add: get_occurrence_times_for_event_def split: prod.splits)

lemma missing_occurrence_data_tuples:
  "fst (missing_occurrence_data env d e until) =
     concat (map (\<lambda>g. map (\<lambda>(s, en). (s, en, g))
                    (filter (\<lambda>(s, en).
                       s \<notin> fst (fst (get_occurrence_times_for_event env d e))
                       \<and> en \<notin> snd (fst (get_occurrence_times_for_event env d e)))
                      (generate env g until)))
               (repeat_generators_all d (pk e)))"
  by (simp add: missing_occurrence_data_def split: prod.splits)





section \<open>Saving and creating occurrences\<close>

lemma occ_pk_pre_save [simp]: "occ_pk (occurrence_pre_save env flag x) = occ_pk x"
  by (simp add: occurrence_pre_save_def Let_def)

lemma occ_event_pre_save [simp]: "occ_event (occurrence_pre_save env flag x) = occ_event x"
  by (simp add: occurrence_pre_save_def Let_def)

lemma occ_generator_pre_save [simp]:
  "occ_generator (occurrence_pre_save env flag x) = occ_generator x"
  by (simp add: occurrence_pre_save_def Let_def)

lemma is_protected_pre_save [simp]:
  "is_protected_from_regeneration (occurrence_pre_save env flag x)
     = (flag \<or> is_protected_from_regeneration x)"
  by (simp add: occurrence_pre_save_def Let_def)

lemma is_cancelled_pre_save [simp]:
  "is_cancelled (occurrence_pre_save env flag x)
     = (if flag then has_cancel_reason x else is_cancelled x)"
  by (simp add: occurrence_pre_save_def Let_def)

lemma is_hidden_pre_save [simp]: "is_hidden (occurrence_pre_save env flag x) = is_hidden x"
  by (simp add: occurrence_pre_save_def Let_def)

lemma cancel_reason_pre_save [simp]:
  "cancel_reason (occurrence_pre_save env flag x) = cancel_reason x"
  by (simp add: occurrence_pre_save_def Let_def)

lemma original_pre_save:
  "original_start x = Some s \<Longrightarrow> original_start (occurrence_pre_save env flag x) = Some s"
  "original_end x = Some t \<Longrightarrow> original_end (occurrence_pre_save env flag x) = Some t"
  by (simp_all add: occurrence_pre_save_def Let_def)

lemma occurrences_create_new:
  "occ_pk x = None \<Longrightarrow>
   occurrences_create env x d =
     d\<lparr>occurrences := occurrences d
          @ [(occurrence_pre_save env False x)\<lparr>occ_pk := Some (next_occurrence_pk d)\<rparr>],
       next_occurrence_pk := Suc (next_occurrence_pk d)\<rparr>"
  by (simp add: occurrences_create_def occurrence_save_def occurrence_write_def Let_def)

text \<open>The rows that a loop of creations appends, in order, with the keys they get.\<close>

lemma fold_occurrences_create:
  assumes "\<And>t. occ_pk (f t) = None"
  shows "fold (\<lambda>t. occurrences_create env (f t)) ts d =
     d\<lparr>occurrences := occurrences d
          @ map (\<lambda>(k, t). (occurrence_pre_save env False (f t))\<lparr>occ_pk := Some k\<rparr>)
              (enumerate (next_occurrence_pk d) ts),
       next_occurrence_pk := next_occurrence_pk d + length ts\<rparr>"
proof (induction ts arbitrary: d)
  case Nil
  show ?case by simp
next
  case (Cons t ts)
  define d1 where "d1 = occurrences_create env (f t) d"
  have e: "d1 = d\<lparr>occurrences := occurrences d
          @ [(occurrence_pre_save env False (f t))\<lparr>occ_pk := Some (next_occurrence_pk d)\<rparr>],
       next_occurrence_pk := Suc (next_occurrence_pk d)\<rparr>"
    unfolding d1_def by (rule occurrences_create_new [OF assms])
  have "fold (\<lambda>t. occurrences_create env (f t)) (t # ts) d
          = fold (\<lambda>t. occurrences_create env (f t)) ts d1"
    by (simp add: d1_def)
  also have "\<dots> = d1\<lparr>occurrences := occurrences d1
          @ map (\<lambda>(k, t). (occurrence_pre_save env False (f t))\<lparr>occ_pk := Some k\<rparr>)
              (enumerate (next_occurrence_pk d1) ts),
       next_occurrence_pk := next_occurrence_pk d1 + length ts\<rparr>"
    by (rule Cons.IH)
  also have "\<dots> = d\<lparr>occurrences := occurrences d
          @ map (\<lambda>(k, t). (occurrence_pre_save env False (f t))\<lparr>occ_pk := Some k\<rparr>)
              (enumerate (next_occurrence_pk d) (t # ts)),
       next_occurrence_pk := next_occurrence_pk d + length (t # ts)\<rparr>"
    by (simp add: e)
  finally show ?case .
qed


lemma occ_pk_generated_occurrence: "occ_pk (generated_occurrence p t) = None"
  by (cases t) (simp add: generated_occurrence_def)

lemma extend_occurrences_eq:
  "extend_occurrences env d e until =
     (length (fst (missing_occurrence_data env d e until)),
      invalidate_caches (snd (missing_occurrence_data env d e until)),
      d\<lparr>occurrences := occurrences d
           @ map (\<lambda>(k, t). (occurrence_pre_save env False (generated_occurrence (pk e) t))
                              \<lparr>occ_pk := Some k\<rparr>)
               (enumerate (next_occurrence_pk d) (fst (missing_occurrence_data env d e until))),
        next_occurrence_pk :=
          next_occurrence_pk d + length (fst (missing_occurrence_data env d e until))\<rparr>)"
  by (simp add: extend_occurrences_def fold_occurrences_create [where f = "generated_occurrence (pk e)", OF occ_pk_generated_occurrence]
        split: prod.splits)

lemma list_all2_map_enumerate:
  assumes "\<And>k t. P t (f k t)"
  shows "list_all2 P ts (map (\<lambda>(k, t). f k t) (enumerate n ts))"
  by (simp add: list_all2_conv_all_nth nth_enumerate_eq assms)

text \<open>
  C4. \<^verbatim>\<open>extend_occurrences\<close> returns the number of tuples that
  \<^verbatim>\<open>missing_occurrence_data\<close> yields. The rows that were in the table are its first
  rows afterwards, unchanged and in their order; after them comes one new row per tuple,
  in the order of the tuples, with \<open>original_start\<close> and \<open>original_end\<close> at the
  start and end of the tuple, the generator of the tuple, the event, a primary key, and
  not protected. The tables of generators and events are as they were.
\<close>

theorem extend_occurrences_only_creates:
  "(case extend_occurrences env d e until of (created, e', d') \<Rightarrow>
      created = length (fst (missing_occurrence_data env d e until))
      \<and> take (length (occurrences d)) (occurrences d') = occurrences d
      \<and> list_all2
          (\<lambda>(start_dt, end_dt, g) x.
              original_start x = Some start_dt \<and> original_end x = Some end_dt
              \<and> occ_generator x = Some (gen_pk g)
              \<and> \<not> is_protected_from_regeneration x
              \<and> occ_event x = pk e
              \<and> occ_pk x \<noteq> None)
          (fst (missing_occurrence_data env d e until))
          (drop (length (occurrences d)) (occurrences d'))
      \<and> repeat_generators d' = repeat_generators d
      \<and> events d' = events d)"
proof -
  have p: "list_all2
          (\<lambda>(start_dt, end_dt, g) x.
              original_start x = Some start_dt \<and> original_end x = Some end_dt
              \<and> occ_generator x = Some (gen_pk g)
              \<and> \<not> is_protected_from_regeneration x
              \<and> occ_event x = pk e
              \<and> occ_pk x \<noteq> None)
          ts
          (map (\<lambda>(k, t). (occurrence_pre_save env False (generated_occurrence (pk e) t))
                              \<lparr>occ_pk := Some k\<rparr>)
               (enumerate n ts))" for ts n
    by (rule list_all2_map_enumerate)
       (auto simp: generated_occurrence_def original_pre_save)
  show ?thesis
    by (simp add: extend_occurrences_eq p del: not_None_eq)
qed

text \<open>
  The show lacks the occurrence of day 2: one occurrence is created, after the two rows
  that were there.
\<close>

theorem extend_occurrences_only_creates_witness:
  "fst (missing_occurrence_data example_env example_db show_event None) =
     [(172800000000, 176400000000, daily_generator)]
   \<and> fst (extend_occurrences example_env example_db show_event None) = 1
   \<and> take 2 (occurrences (snd (snd (extend_occurrences example_env example_db show_event None))))
       = [first_occurrence, shifted_occurrence]
   \<and> drop 2 (occurrences (snd (snd (extend_occurrences example_env example_db show_event None))))
       = [\<lparr>occ_pk = Some 3, occ_event = 1, occ_generator = Some 1,
           occ_start = 172800000000, occ_end = 176400000000, occ_is_all_day = False,
           is_protected_from_regeneration = False, is_cancelled = False, is_hidden = False,
           cancel_reason = None,
           original_start = Some 172800000000, original_end = Some 176400000000\<rparr>]"
proof -
  have m: "fst (missing_occurrence_data example_env example_db show_event None) =
             [(172800000000, 176400000000, daily_generator)]"
    by code_simp
  have o: "occurrences example_db = [first_occurrence, shifted_occurrence]"
    by (simp add: example_db_def)
  note inst = extend_occurrences_only_creates
                [of example_env example_db show_event None, unfolded case_prod_unfold m o]
  from inst have a: "fst (extend_occurrences example_env example_db show_event None) = 1"
    by simp
  from inst have b:
    "take 2 (occurrences (snd (snd (extend_occurrences example_env example_db show_event None))))
       = [first_occurrence, shifted_occurrence]"
    by (simp add: numeral_2_eq_2)
  have c:
    "drop 2 (occurrences (snd (snd (extend_occurrences example_env example_db show_event None))))
       = [\<lparr>occ_pk = Some 3, occ_event = 1, occ_generator = Some 1,
           occ_start = 172800000000, occ_end = 176400000000, occ_is_all_day = False,
           is_protected_from_regeneration = False, is_cancelled = False, is_hidden = False,
           cancel_reason = None,
           original_start = Some 172800000000, original_end = Some 176400000000\<rparr>]"
    by code_simp
  from m a b c show ?thesis by blast
qed

section \<open>Protection and cancellation\<close>

lemma occurrence_save_fst:
  "fst (occurrence_save env flag x d) =
     (case occ_pk x of
        None \<Rightarrow> (occurrence_pre_save env flag x)\<lparr>occ_pk := Some (next_occurrence_pk d)\<rparr>
      | Some k \<Rightarrow> occurrence_pre_save env flag x)"
  by (simp add: occurrence_save_def occurrence_write_def Let_def split: option.splits)

lemma is_protected_occurrence_save [simp]:
  "is_protected_from_regeneration (fst (occurrence_save env flag x d))
     = (flag \<or> is_protected_from_regeneration x)"
  by (simp add: occurrence_save_fst split: option.splits)

lemma occurrence_save_persists:
  "fst (occurrence_save env flag x d) \<in> set (occurrences (snd (occurrence_save env flag x d)))"
  by (auto simp: occurrence_save_def occurrence_write_def Let_def split: option.splits)

lemma occurrence_save_keeps_pk:
  "occ_pk x = Some k \<Longrightarrow> occ_pk (fst (occurrence_save env flag x d)) = Some k"
  by (simp add: occurrence_save_fst)

lemma occurrence_save_other_rows:
  "r \<in> set (occurrences d) \<Longrightarrow> occ_pk r \<noteq> occ_pk x \<Longrightarrow>
   r \<in> set (occurrences (snd (occurrence_save env flag x d)))"
  by (auto simp: occurrence_save_def occurrence_write_def Let_def split: option.splits)

lemma occurrence_save_unsaved_rows:
  "occ_pk x = None \<Longrightarrow> r \<in> set (occurrences d) \<Longrightarrow>
   r \<in> set (occurrences (snd (occurrence_save env flag x d)))"
  by (simp add: occurrence_save_def occurrence_write_def Let_def)

lemma occurrence_save_keeps_keys:
  assumes "r \<in> set (occurrences d)"
  shows "\<exists>r' \<in> set (occurrences (snd (occurrence_save env flag x d))).
      occ_pk r' = occ_pk r \<and> (r' = r \<or> r' = fst (occurrence_save env flag x d))"
proof (cases "occ_pk r = occ_pk x")
  case False
  with assms show ?thesis
    by (blast intro: occurrence_save_other_rows)
next
  case True
  show ?thesis
  proof (cases "occ_pk x")
    case None
    with assms show ?thesis
      by (blast intro: occurrence_save_unsaved_rows)
  next
    case (Some k)
    with True have "occ_pk (fst (occurrence_save env flag x d)) = occ_pk r"
      by (simp add: occurrence_save_keeps_pk)
    then show ?thesis
      using occurrence_save_persists by blast
  qed
qed


lemma occurrence_save_other_tables [simp]:
  "repeat_generators (snd (occurrence_save env flag x d)) = repeat_generators d"
  "events (snd (occurrence_save env flag x d)) = events d"
  by (auto simp: occurrence_save_def occurrence_write_def Let_def split: option.splits)

lemma occurrences_delete_regeneratable [simp]:
  "occurrences (delete_regeneratable d p)
     = filter (\<lambda>x. \<not> (occ_event x = p \<and> regeneratable x)) (occurrences d)"
  by (simp add: delete_regeneratable_def)

lemma extend_occurrences_keeps_rows:
  "r \<in> set (occurrences d) \<Longrightarrow>
   r \<in> set (occurrences (snd (snd (extend_occurrences env d e until))))"
  by (simp add: extend_occurrences_eq)

lemma regenerate_occurrences_keeps_protected:
  "r \<in> set (occurrences d) \<Longrightarrow> is_protected_from_regeneration r \<Longrightarrow>
   r \<in> set (occurrences (snd (regenerate_occurrences env d e until)))"
  by (simp add: regenerate_occurrences_def extend_occurrences_eq regeneratable_def)

lemma cancel_occurrence_no_op:
  "\<not> occurrence_in x (fst (occurrence_list d e)) \<Longrightarrow>
   cancel_occurrence env d e x flag h reason = (x, snd (occurrence_list d e), d)"
  by (simp add: cancel_occurrence_def case_prod_unfold)

lemma cancel_occurrence_member:
  "occurrence_in x (fst (occurrence_list d e)) \<Longrightarrow>
   cancel_occurrence env d e x flag h reason =
     (fst (occurrence_save env flag
             (x\<lparr>is_protected_from_regeneration := True, is_cancelled := True,
                is_hidden := h, cancel_reason := reason\<rparr>) d),
      invalidate_caches (snd (occurrence_list d e)),
      snd (occurrence_save env flag
             (x\<lparr>is_protected_from_regeneration := True, is_cancelled := True,
                is_hidden := h, cancel_reason := reason\<rparr>) d))"
  by (simp add: cancel_occurrence_def case_prod_unfold Let_def)

text \<open>
  C3. An occurrence that is protected stays protected through \<^verbatim>\<open>save\<close> (the saved
  object is protected and is the row of its key) and through \<^verbatim>\<open>cancel_occurrence\<close>.
  A protected row of the table is still there, unchanged, after
  \<^verbatim>\<open>extend_occurrences\<close> and after \<^verbatim>\<open>regenerate_occurrences\<close>; after the
  \<^verbatim>\<open>save\<close> of an object of another key it is unchanged; after
  \<^verbatim>\<open>cancel_occurrence\<close> the row of its key is protected. Hence the protected
  occurrences of an event before \<^verbatim>\<open>regenerate_occurrences\<close> are among its protected
  occurrences afterwards.
\<close>

theorem protection_is_never_reset:
  "(is_protected_from_regeneration x \<longrightarrow>
      is_protected_from_regeneration (fst (occurrence_save env flag x d))
      \<and> fst (occurrence_save env flag x d)
           \<in> set (occurrences (snd (occurrence_save env flag x d)))
      \<and> is_protected_from_regeneration (fst (cancel_occurrence env d e x flag h reason)))
   \<and> (\<forall>r \<in> set (occurrences d). is_protected_from_regeneration r \<longrightarrow>
         (occ_pk r \<noteq> occ_pk x \<longrightarrow>
            r \<in> set (occurrences (snd (occurrence_save env flag x d))))
         \<and> r \<in> set (occurrences (snd (snd (extend_occurrences env d e until))))
         \<and> r \<in> set (occurrences (snd (regenerate_occurrences env d e until)))
         \<and> (\<exists>r' \<in> set (occurrences (snd (snd (cancel_occurrence env d e x flag h reason)))).
               occ_pk r' = occ_pk r \<and> is_protected_from_regeneration r'))
   \<and> {r \<in> set (occurrences d). occ_event r = pk e \<and> is_protected_from_regeneration r}
       \<subseteq> {r \<in> set (occurrences (snd (regenerate_occurrences env d e until))).
            occ_event r = pk e \<and> is_protected_from_regeneration r}"
proof (intro conjI impI ballI)
  assume "is_protected_from_regeneration x"
  then show "is_protected_from_regeneration (fst (occurrence_save env flag x d))"
    by simp
  show "fst (occurrence_save env flag x d)
           \<in> set (occurrences (snd (occurrence_save env flag x d)))"
    by (rule occurrence_save_persists)
  show "is_protected_from_regeneration (fst (cancel_occurrence env d e x flag h reason))"
    using \<open>is_protected_from_regeneration x\<close>
    by (cases "occurrence_in x (fst (occurrence_list d e))")
       (simp_all add: cancel_occurrence_no_op cancel_occurrence_member)
next
  fix r
  assume r: "r \<in> set (occurrences d)" "is_protected_from_regeneration r"
  show "r \<in> set (occurrences (snd (occurrence_save env flag x d)))"
    if "occ_pk r \<noteq> occ_pk x"
    using r(1) that by (rule occurrence_save_other_rows)
  show "r \<in> set (occurrences (snd (snd (extend_occurrences env d e until))))"
    using r(1) by (rule extend_occurrences_keeps_rows)
  show "r \<in> set (occurrences (snd (regenerate_occurrences env d e until)))"
    using r by (rule regenerate_occurrences_keeps_protected)
  show "\<exists>r' \<in> set (occurrences (snd (snd (cancel_occurrence env d e x flag h reason)))).
               occ_pk r' = occ_pk r \<and> is_protected_from_regeneration r'"
  proof (cases "occurrence_in x (fst (occurrence_list d e))")
    case False
    with r show ?thesis
      by (auto simp: cancel_occurrence_no_op)
  next
    case True
    let ?x = "x\<lparr>is_protected_from_regeneration := True, is_cancelled := True,
                is_hidden := h, cancel_reason := reason\<rparr>"
    from occurrence_save_keeps_keys [OF r(1), of env flag ?x]
    obtain r' where r': "r' \<in> set (occurrences (snd (occurrence_save env flag ?x d)))"
      "occ_pk r' = occ_pk r" "r' = r \<or> r' = fst (occurrence_save env flag ?x d)"
      by blast
    from r'(3) r(2) have "is_protected_from_regeneration r'"
      by auto
    with r' True show ?thesis
      by (auto simp: cancel_occurrence_member)
  qed
next
  show "{r \<in> set (occurrences d). occ_event r = pk e \<and> is_protected_from_regeneration r}
       \<subseteq> {r \<in> set (occurrences (snd (regenerate_occurrences env d e until))).
            occ_event r = pk e \<and> is_protected_from_regeneration r}"
    by (auto intro: regenerate_occurrences_keeps_protected)
qed

text \<open>
  The moved occurrence of the show is protected; it is in the table after an extension and
  after a regeneration, and it is protected after it is saved and after it is cancelled.
\<close>

theorem protection_is_never_reset_witness:
  "is_protected_from_regeneration shifted_occurrence
   \<and> shifted_occurrence \<in> set (occurrences example_db)
   \<and> occ_event shifted_occurrence = pk show_event
   \<and> is_protected_from_regeneration
        (fst (occurrence_save example_env False shifted_occurrence example_db))
   \<and> is_protected_from_regeneration
        (fst (cancel_occurrence example_env example_db show_event shifted_occurrence
                False False None))
   \<and> shifted_occurrence
        \<in> set (occurrences (snd (snd (extend_occurrences example_env example_db show_event None))))
   \<and> shifted_occurrence
        \<in> set (occurrences (snd (regenerate_occurrences example_env example_db show_event None)))
   \<and> shifted_occurrence
        \<in> {r \<in> set (occurrences (snd (regenerate_occurrences example_env example_db
                                          show_event None))).
             occ_event r = pk show_event \<and> is_protected_from_regeneration r}"
proof -
  have p: "is_protected_from_regeneration shifted_occurrence"
    by (simp add: shifted_occurrence_def)
  have m: "shifted_occurrence \<in> set (occurrences example_db)"
    by (simp add: example_db_def)
  have v: "occ_event shifted_occurrence = pk show_event"
    by (simp add: shifted_occurrence_def show_event_def)
  note inst = protection_is_never_reset
                [of shifted_occurrence example_env False example_db show_event False None None]
  from inst p have a: "is_protected_from_regeneration
        (fst (occurrence_save example_env False shifted_occurrence example_db))"
    by blast
  from inst p have b: "is_protected_from_regeneration
        (fst (cancel_occurrence example_env example_db show_event shifted_occurrence
                False False None))"
    by blast
  from inst p m have c: "shifted_occurrence
        \<in> set (occurrences (snd (snd (extend_occurrences example_env example_db show_event None))))"
    by blast
  from inst p m have d: "shifted_occurrence
        \<in> set (occurrences (snd (regenerate_occurrences example_env example_db show_event None)))"
    by blast
  from inst p m v have e: "shifted_occurrence
        \<in> {r \<in> set (occurrences (snd (regenerate_occurrences example_env example_db
                                          show_event None))).
             occ_event r = pk show_event \<and> is_protected_from_regeneration r}"
    by blast
  from p m v a b c d e show ?thesis by blast
qed




section \<open>Variations\<close>

lemma pk_get_occurrence_times_for_event [simp]:
  "pk (snd (get_occurrence_times_for_event env d e)) = pk e"
  by (simp add: get_occurrence_times_for_event_def case_prod_unfold Let_def)

lemma pk_missing_occurrence_data [simp]:
  "pk (snd (missing_occurrence_data env d e until)) = pk e"
  by (simp add: missing_occurrence_data_def case_prod_unfold Let_def)

lemma pk_regenerate_occurrences [simp]:
  "pk (fst (regenerate_occurrences env d e until)) = pk e"
  by (simp add: regenerate_occurrences_def extend_occurrences_eq)

lemma regenerate_occurrences_other_tables [simp]:
  "repeat_generators (snd (regenerate_occurrences env d e until)) = repeat_generators d"
  "events (snd (regenerate_occurrences env d e until)) = events d"
  by (simp_all add: regenerate_occurrences_def extend_occurrences_eq delete_regeneratable_def)


lemma gen_event_generator_save:
  "generator_save env g = Inr g' \<Longrightarrow> gen_event g' = gen_event g"
  by (auto simp: generator_save_def split: if_splits)


lemma clone_generators_appends:
  "clone_generators env gs dst d = Inr (dst', d') \<Longrightarrow>
   \<exists>new. repeat_generators d' = repeat_generators d @ new
         \<and> (\<forall>g \<in> set new. gen_event g = pk dst)"
proof (induction gs arbitrary: dst d)
  case Nil
  then show ?case by simp
next
  case (Cons g gs)
  from Cons.prems obtain g' where g': "generator_save env (g\<lparr>gen_event := pk dst\<rparr>) = Inr g'"
    by (cases "generator_save env (g\<lparr>gen_event := pk dst\<rparr>)") simp_all
  let ?r = "regenerate_event_occurrences env (generator_insert g' d) dst"
  from Cons.prems g' have "clone_generators env gs (fst ?r) (snd ?r) = Inr (dst', d')"
    by (simp add: case_prod_unfold Let_def)
  from Cons.IH [OF this] obtain new where
    new: "repeat_generators d' = repeat_generators (snd ?r) @ new"
         "\<forall>g \<in> set new. gen_event g = pk (fst ?r)"
    by blast
  have e: "gen_event g' = pk dst"
    using gen_event_generator_save [OF g'] by simp
  have "repeat_generators (snd ?r)
          = repeat_generators d @ [g'\<lparr>gen_pk := next_generator_pk d\<rparr>]"
    by (simp add: regenerate_event_occurrences_def generator_insert_def)
  with new e show ?case
    by (auto simp: regenerate_event_occurrences_def)
qed

lemma fold_clone_occurrences_other_tables [simp]:
  "repeat_generators
     (fold (\<lambda>x. occurrences_create env (x\<lparr>occ_pk := None, occ_event := p\<rparr>)) xs d)
     = repeat_generators d"
  "events (fold (\<lambda>x. occurrences_create env (x\<lparr>occ_pk := None, occ_event := p\<rparr>)) xs d)
     = events d"
  by (simp_all add: fold_occurrences_create
        [where f = "\<lambda>x. x\<lparr>occ_pk := None, occ_event := p\<rparr>"])


lemma repeat_generators_event_save [simp]:
  "repeat_generators (event_save e d) = repeat_generators d"
  by (simp add: event_save_def Let_def)

lemma occurrences_event_save [simp]: "occurrences (event_save e d) = occurrences d"
  by (simp add: event_save_def Let_def)



lemma make_variation_deletes_from_split:
  "make_variation env d e x = Inr (v, e', d') \<Longrightarrow>
   \<forall>r \<in> set (occurrences d'). occ_event r = pk e \<longrightarrow> occ_start r < occ_start x"
  by (auto simp: make_variation_def Let_def split: sum.splits)

lemma make_variation_keeps_generators:
  assumes "make_variation env d e x = Inr (v, e', d')"
    and "pk e \<noteq> next_event_pk d"
  shows "repeat_generators_all d' (pk e) = repeat_generators_all d (pk e)"
proof -
  let ?v = "Event (next_event_pk d) (title e) (Some (pk e)) None None None None"
  let ?d0 = "event_save ?v (d\<lparr>next_event_pk := Suc (next_event_pk d)\<rparr>)"
  from assms(1) obtain v1 d1 where
    c: "clone_event_relationships env ?d0 e ?v = Inr (v1, d1)"
    and d': "repeat_generators d' = repeat_generators d1"
    by (auto simp: make_variation_def Let_def split: sum.splits)
  from c obtain new where new: "repeat_generators d1 = repeat_generators d @ new"
    "\<forall>g \<in> set new. gen_event g = next_event_pk d"
    unfolding clone_event_relationships_def Let_def
    by (fastforce dest: clone_generators_appends)
  from new(2) assms(2) have "filter (\<lambda>g. gen_event g = pk e) new = []"
    by (auto simp: filter_empty_conv)
  with new(1) d' show ?thesis
    by (simp add: repeat_generators_all_def)
qed




text \<open>
  After \<^verbatim>\<open>make_variation\<close> the event has no occurrence that starts at or after the
  start of the given occurrence. Its generators, however, are what they were (the key of
  the event being one that the table has handed out).
\<close>

lemma make_variation_truncates_occurrences_only:
  assumes "make_variation env d e x = Inr (v, e', d')"
    and "pk e \<noteq> next_event_pk d"
  shows "(\<forall>r \<in> set (occurrences d'). occ_event r = pk e \<longrightarrow> occ_start r < occ_start x)
         \<and> repeat_generators_all d' (pk e) = repeat_generators_all d (pk e)"
  using make_variation_deletes_from_split [OF assms(1)]
        make_variation_keeps_generators [OF assms]
  by blast

text \<open>
  C9. The claim has the generators of the original event truncated at the start of the
  split occurrence, so that no later regeneration brings back an occurrence at or after
  it. \<^verbatim>\<open>make_variation\<close> assigns the start to \<^verbatim>\<open>self.end_repeat\<close>, which is no
  field of the event and which nothing reads; the generators keep their
  \<open>repeat_end\<close>. The show is split at its moved occurrence of day 1: afterwards it has
  the occurrence of day 0 only and its generator is unchanged, and the next
  \<^verbatim>\<open>regenerate_occurrences\<close> gives it the occurrences of days 0, 1 and 2, the last of
  which starts after the split.
\<close>

theorem make_variation_leaves_generators_untruncated:
  "occurrence_in shifted_occurrence (fst (occurrence_list example_db show_event))
   \<and> occ_start shifted_occurrence = 88200000000
   \<and> \<not> isl (make_variation example_env example_db show_event shifted_occurrence)
   \<and> end_repeat
        (fst (snd (projr (make_variation example_env example_db show_event
                            shifted_occurrence))))
       = Some 88200000000
   \<and> repeat_generators_all
        (snd (snd (projr (make_variation example_env example_db show_event
                            shifted_occurrence)))) 1
       = [daily_generator]
   \<and> repeat_end daily_generator = Some 259200000000
   \<and> map occ_start
        (occurrences_all
           (snd (snd (projr (make_variation example_env example_db show_event
                               shifted_occurrence)))) 1)
       = [0]
   \<and> map occ_start
        (occurrences_all
           (snd (regenerate_occurrences example_env
                   (snd (snd (projr (make_variation example_env example_db show_event
                                       shifted_occurrence))))
                   (fst (snd (projr (make_variation example_env example_db show_event
                                       shifted_occurrence))))
                   None)) 1)
       = [0, 86400000000, 172800000000]"
  by code_simp

section \<open>Regeneration, twice\<close>

lemma visible_part_of_invalidate_caches [simp]:
  "visible_part_of (invalidate_caches e) = visible_part_of e"
  by (cases e) (simp add: invalidate_caches_def)

lemma invalidate_caches_idem [simp]:
  "invalidate_caches (invalidate_caches e) = invalidate_caches e"
  by (cases e) (simp add: invalidate_caches_def)

text \<open>
  A second read, after \<^verbatim>\<open>invalidate_caches\<close> and against a table that holds the
  same occurrences for the event, gives the list of the first read: the parent object
  has kept the list it memoised.
\<close>

lemma occurrence_list_read_again:
  assumes "memo_own_occurrences e = None" and "memo_occurrence_list e = None"
    and "occurrences_all d' (pk e) = occurrences_all d (pk e)"
  shows "fst (occurrence_list d' (invalidate_caches (snd (occurrence_list d e))))
           = fst (occurrence_list d e)"
proof (cases e)
  case (Event p t df v r mo ml)
  with assms have c: "mo = None" "ml = None" and o: "occurrences_all d' p = occurrences_all d p"
    by simp_all
  show ?thesis
  proof (cases "occurrences_all d p = []")
    case False
    with Event c o show ?thesis
      by (simp add: own_occurrences_def Let_def invalidate_caches_def)
  next
    case True
    show ?thesis
    proof (cases v)
      case None
      with Event c o True show ?thesis
        by (simp add: own_occurrences_def Let_def invalidate_caches_def)
    next
      case (Some parent)
      have m: "occurrence_list d' (snd (occurrence_list d parent))
                 = (fst (occurrence_list d parent), snd (occurrence_list d parent))"
        by (rule occurrence_list_memoised) (rule memo_after_occurrence_list)
      from Event c o True Some show ?thesis
        by (simp add: own_occurrences_def Let_def invalidate_caches_def case_prod_unfold m)
    qed
  qed
qed

lemma missing_occurrence_data_cong:
  assumes "fst (occurrence_list d' e') = fst (occurrence_list d e)"
    and "repeat_generators_all d' (pk e') = repeat_generators_all d (pk e)"
  shows "fst (missing_occurrence_data env d' e' until)
           = fst (missing_occurrence_data env d e until)"
  by (simp add: missing_occurrence_data_tuples identity_sets_of_occurrence_list assms)

lemma snd_missing_occurrence_data:
  "snd (missing_occurrence_data env d e until) = invalidate_caches (snd (occurrence_list d e))"
  by (simp add: missing_occurrence_data_def get_occurrence_times_for_event_def
        case_prod_unfold Let_def)

lemma fst_regenerate_occurrences:
  "fst (regenerate_occurrences env d e until)
     = invalidate_caches (snd (occurrence_list (delete_regeneratable d (pk e)) e))"
  by (simp add: regenerate_occurrences_def extend_occurrences_eq snd_missing_occurrence_data)

lemma occurrences_regenerate_occurrences:
  "occurrences (snd (regenerate_occurrences env d e until))
     = filter (\<lambda>x. \<not> (occ_event x = pk e \<and> regeneratable x)) (occurrences d)
       @ map (\<lambda>(k, t). (occurrence_pre_save env False (generated_occurrence (pk e) t))
                          \<lparr>occ_pk := Some k\<rparr>)
           (enumerate (next_occurrence_pk d)
              (fst (missing_occurrence_data env (delete_regeneratable d (pk e)) e until)))"
  by (simp add: regenerate_occurrences_def extend_occurrences_eq delete_regeneratable_def)

lemma created_row_is_regeneratable:
  "x \<in> set (map (\<lambda>(k, t). (occurrence_pre_save env False (generated_occurrence p t))
                              \<lparr>occ_pk := Some k\<rparr>) kts) \<Longrightarrow>
   occ_event x = p \<and> regeneratable x"
  by (auto simp: regeneratable_def generated_occurrence_def)

lemma created_rows_are_regeneratable:
  "filter (\<lambda>x. occ_event x = p \<longrightarrow> \<not> regeneratable x)
     (map (\<lambda>(k, t). (occurrence_pre_save env False (generated_occurrence p t))
                        \<lparr>occ_pk := Some k\<rparr>) kts) = []"
  unfolding filter_empty_conv using created_row_is_regeneratable by blast

lemma created_rows_without_keys:
  "map ((\<lambda>x. x\<lparr>occ_pk := None\<rparr>)
        \<circ> (\<lambda>(k, t). (occurrence_pre_save env False (generated_occurrence p t))
                        \<lparr>occ_pk := Some k\<rparr>)) (enumerate n ts)
   = map (\<lambda>t. (occurrence_pre_save env False (generated_occurrence p t))\<lparr>occ_pk := None\<rparr>) ts"
  by (induction ts arbitrary: n) simp_all

text \<open>
  On an event object that holds no memoised view, \<^verbatim>\<open>regenerate_occurrences\<close> is
  idempotent: a second call with the same \<open>until\<close> (and the same clock) leaves the
  rows of the first call, up to the primary keys of the regenerated rows; so the number of
  occurrences and the starts and ends are the same.
\<close>

lemma regenerate_occurrences_twice_unmemoised:
  assumes "memo_own_occurrences e = None" and "memo_occurrence_list e = None"
  shows "map (\<lambda>x. x\<lparr>occ_pk := None\<rparr>)
           (occurrences (snd (regenerate_occurrences env
                                (snd (regenerate_occurrences env d e until))
                                (fst (regenerate_occurrences env d e until)) until)))
         = map (\<lambda>x. x\<lparr>occ_pk := None\<rparr>)
             (occurrences (snd (regenerate_occurrences env d e until)))"
proof -
  let ?keep = "\<lambda>x. \<not> (occ_event x = pk e \<and> regeneratable x)"
  let ?dd = "delete_regeneratable d (pk e)"
  let ?e1 = "fst (regenerate_occurrences env d e until)"
  let ?d1 = "snd (regenerate_occurrences env d e until)"
  let ?dd1 = "delete_regeneratable ?d1 (pk e)"
  have o: "occurrences ?dd1 = occurrences ?dd"
    by (simp add: occurrences_regenerate_occurrences created_rows_are_regeneratable)
  then have oa: "occurrences_all ?dd1 (pk e) = occurrences_all ?dd (pk e)"
    by (simp add: occurrences_all_def)
  have g: "repeat_generators_all ?dd1 (pk e) = repeat_generators_all ?dd (pk e)"
    by (simp add: repeat_generators_all_def delete_regeneratable_def)
  have l: "fst (occurrence_list ?dd1 ?e1) = fst (occurrence_list ?dd e)"
    unfolding fst_regenerate_occurrences
    using assms oa by (rule occurrence_list_read_again)
  have m: "fst (missing_occurrence_data env ?dd1 ?e1 until)
             = fst (missing_occurrence_data env ?dd e until)"
    using l g by (intro missing_occurrence_data_cong) simp_all
  have f: "filter ?keep (occurrences ?d1) = filter ?keep (occurrences d)"
    using o by simp
  have "occurrences (snd (regenerate_occurrences env ?d1 ?e1 until))
          = filter ?keep (occurrences d)
            @ map (\<lambda>(k, t). (occurrence_pre_save env False (generated_occurrence (pk e) t))
                               \<lparr>occ_pk := Some k\<rparr>)
                (enumerate (next_occurrence_pk ?d1)
                   (fst (missing_occurrence_data env ?dd e until)))"
    using f m by (simp add: occurrences_regenerate_occurrences [of env ?d1 ?e1])
  then show ?thesis
    by (simp add: occurrences_regenerate_occurrences [of env d e] created_rows_without_keys)
qed

lemma regenerate_occurrences_twice_unmemoised_count:
  assumes "memo_own_occurrences e = None" and "memo_occurrence_list e = None"
  shows "length (occurrences (snd (regenerate_occurrences env
                                (snd (regenerate_occurrences env d e until))
                                (fst (regenerate_occurrences env d e until)) until)))
         = length (occurrences (snd (regenerate_occurrences env d e until)))
       \<and> mset (map (\<lambda>x. (occ_start x, occ_end x))
           (occurrences (snd (regenerate_occurrences env
                                (snd (regenerate_occurrences env d e until))
                                (fst (regenerate_occurrences env d e until)) until))))
         = mset (map (\<lambda>x. (occ_start x, occ_end x))
             (occurrences (snd (regenerate_occurrences env d e until))))"
proof -
  let ?a = "occurrences (snd (regenerate_occurrences env
                                (snd (regenerate_occurrences env d e until))
                                (fst (regenerate_occurrences env d e until)) until))"
  let ?b = "occurrences (snd (regenerate_occurrences env d e until))"
  have e: "map (\<lambda>x. x\<lparr>occ_pk := None\<rparr>) ?a = map (\<lambda>x. x\<lparr>occ_pk := None\<rparr>) ?b"
    using assms by (rule regenerate_occurrences_twice_unmemoised)
  then have "length ?a = length ?b"
    by (rule map_eq_imp_length_eq)
  moreover have "map (\<lambda>x. (occ_start x, occ_end x)) ?a = map (\<lambda>x. (occ_start x, occ_end x)) ?b"
  proof -
    have "map (\<lambda>x. (occ_start x, occ_end x)) (map (\<lambda>x. x\<lparr>occ_pk := None\<rparr>) ?a)
            = map (\<lambda>x. (occ_start x, occ_end x)) (map (\<lambda>x. x\<lparr>occ_pk := None\<rparr>) ?b)"
      by (simp only: e)
    then show ?thesis by (simp add: comp_def)
  qed
  ultimately show ?thesis by simp
qed

text \<open>
  C2. The claim has \<^verbatim>\<open>regenerate_occurrences\<close> idempotent for every event. The
  method deletes the regeneratable occurrences and then reads \<^verbatim>\<open>occurrence_list\<close>
  without a call of \<^verbatim>\<open>invalidate_caches\<close> in between, so an event object that
  has memoised the list takes the deleted occurrences for existing ones and does not
  create them again. The show object has read its list (the occurrences of day 0 and of
  day 1, moved). The first call deletes the generated occurrence of day 0 and creates
  day 2 only: the table holds the moved occurrence and day 2. The call has dropped the
  memoised list, so the second call creates day 0 as well: three occurrences, which is
  what a single call on an object without a memoised list gives.
\<close>

theorem regenerate_occurrences_memoised_not_idempotent:
  "memo_occurrence_list show_event_read = Some [first_occurrence, shifted_occurrence]
   \<and> map occ_start (occurrences example_db) = [0, 88200000000]
   \<and> map occ_start
        (occurrences (snd (regenerate_occurrences example_env example_db show_event_read None)))
       = [88200000000, 172800000000]
   \<and> map occ_start
        (occurrences
           (snd (regenerate_occurrences example_env
                   (snd (regenerate_occurrences example_env example_db show_event_read None))
                   (fst (regenerate_occurrences example_env example_db show_event_read None))
                   None)))
       = [88200000000, 0, 172800000000]
   \<and> map occ_start
        (occurrences (snd (regenerate_occurrences example_env example_db show_event None)))
       = [88200000000, 0, 172800000000]"
  by code_simp

end
